theory Spec2Isabelle
  imports Complex_Main
begin

section \<open>Data model of App.jsx\<close>

text \<open>
  The application is one React component tree: \<^verbatim>\<open>App\<close> owns the location list, the
  selected id and the wallet balance; \<^verbatim>\<open>BountyPanel\<close> owns the form data, the
  \<^verbatim>\<open>isVerifying\<close> flag and the \<^verbatim>\<open>step\<close> counter. \<^verbatim>\<open>BountyPanel\<close> is always mounted by
  \<^verbatim>\<open>App\<close> (its hooks run before its \<^verbatim>\<open>return null\<close>), so its state lives as long as the
  application's and is kept in the same record here.

  A location's status is one of the two strings \<^verbatim>\<open>'stale'\<close> and \<^verbatim>\<open>'fresh'\<close>. The wallet
  balance is a JavaScript number; the amounts (124.50, 15.00 and their sums) are exact in
  binary floating point, and the balance is modelled as an exact real number.
\<close>

datatype status = Stale | Fresh

record location =
  loc_id :: nat
  name :: string
  position :: "real list"
  status :: status
  loc_type :: string

text \<open>The \<^verbatim>\<open>File\<close> object taken from the file input, known by its name; an object is
  always truthy, whatever its name.\<close>

datatype image_file = File string

text \<open>The form data \<^verbatim>\<open>{ image, description }\<close>; the field \<^verbatim>\<open>image\<close> is written \<open>image'\<close>
  here.\<close>

record form_data =
  image' :: "image_file option"
  description :: string

text \<open>
  The three callbacks \<^verbatim>\<open>handleSubmit\<close> hands to \<^verbatim>\<open>setTimeout\<close>: two of them set the step,
  the last one finishes the session. The last closure reads \<^verbatim>\<open>selectedLocation\<close> of the
  render in which the form was submitted, so the callback carries that captured value
  (\<open>None\<close> for \<^verbatim>\<open>undefined\<close>).
\<close>

datatype callback = SetStep nat | Finish "location option"

record timer =
  due :: nat
  cb :: callback

datatype error = TypeError

record app_state =
  locations :: "location list"
  selectedId :: "nat option"
  balance :: real
  formData :: form_data
  isVerifying :: bool
  step :: nat
  now :: nat
  timers :: "timer list"
  uncaught :: "error list"

subsection \<open>Constants\<close>

definition INITIAL_BALANCE :: real where
  "INITIAL_BALANCE = 124.50"

definition BOUNTY_REWARD :: real where
  "BOUNTY_REWARD = 15.00"

definition LOCATIONS :: "location list" where
  "LOCATIONS =
    [\<lparr>loc_id = 1, name = ''The Grand Cafe'', position = [0, 0.5, 0], status = Stale,
       loc_type = ''cafe''\<rparr>,
     \<lparr>loc_id = 2, name = ''Blackwell's Books'', position = [-4, 0.5, -2], status = Fresh,
       loc_type = ''shop''\<rparr>,
     \<lparr>loc_id = 3, name = ''Radcliffe Camera'', position = [3, 0.5, -3], status = Fresh,
       loc_type = ''landmark''\<rparr>,
     \<lparr>loc_id = 4, name = ''Covered Market'', position = [2, 0.5, 4], status = Fresh,
       loc_type = ''market''\<rparr>,
     \<lparr>loc_id = 5, name = ''Ashmolean Museum'', position = [-3, 0.5, 5], status = Fresh,
       loc_type = ''museum''\<rparr>]"

text \<open>The state after the first render: the \<^verbatim>\<open>useState\<close> initialisers of \<^verbatim>\<open>App\<close> and
  \<^verbatim>\<open>BountyPanel\<close>, for a seed list and a starting balance; the clock (milliseconds) starts
  at 0 and no timer is pending.\<close>

definition mount :: "location list \<Rightarrow> real \<Rightarrow> app_state" where
  "mount locs bal =
    \<lparr>locations = locs, selectedId = None, balance = bal,
     formData = \<lparr>image' = None, description = ''''\<rparr>,
     isVerifying = False, step = 0, now = 0, timers = [], uncaught = []\<rparr>"

definition init :: app_state where
  "init = mount LOCATIONS INITIAL_BALANCE"

section \<open>The handlers\<close>

text \<open>\<^verbatim>\<open>const selectedLocation = locations.find(l => l.id === selectedId)\<close>: no location
  has the id \<^verbatim>\<open>null\<close>, and \<^verbatim>\<open>find\<close> returns the first match or \<^verbatim>\<open>undefined\<close>.\<close>

definition selectedLocation :: "app_state \<Rightarrow> location option" where
  "selectedLocation s =
    (case selectedId s of
       None \<Rightarrow> None
     | Some i \<Rightarrow> find (\<lambda>l. loc_id l = i) (locations s))"

definition setSelectedId :: "nat option \<Rightarrow> app_state \<Rightarrow> app_state" where
  "setSelectedId v s = s\<lparr>selectedId := v\<rparr>"

text \<open>The updater \<^verbatim>\<open>handleVerify\<close> passes to \<^verbatim>\<open>setLocations\<close>.\<close>

definition setFresh :: "nat \<Rightarrow> location list \<Rightarrow> location list" where
  "setFresh i locs = map (\<lambda>loc. if loc_id loc = i then loc\<lparr>status := Fresh\<rparr> else loc) locs"

definition handleVerify :: "nat \<Rightarrow> app_state \<Rightarrow> app_state" where
  "handleVerify i s =
    s\<lparr>locations := setFresh i (locations s), balance := balance s + BOUNTY_REWARD\<rparr>"

text \<open>\<^verbatim>\<open>e.target.files\<close> is the list of chosen files, empty when the dialog is
  cancelled.\<close>

definition handleFileChange :: "image_file list \<Rightarrow> app_state \<Rightarrow> app_state" where
  "handleFileChange files s =
    (case files of
       [] \<Rightarrow> s
     | f # _ \<Rightarrow> s\<lparr>formData := (formData s)\<lparr>image' := Some f\<rparr>\<rparr>)"

definition handleDescriptionChange :: "string \<Rightarrow> app_state \<Rightarrow> app_state" where
  "handleDescriptionChange v s = s\<lparr>formData := (formData s)\<lparr>description := v\<rparr>\<rparr>"

definition handleSubmit :: "app_state \<Rightarrow> app_state" where
  "handleSubmit s =
    (if image' (formData s) = None then s
     else s\<lparr>isVerifying := True, step := 1,
            timers := timers s @
              [\<lparr>due = now s + 1500, cb = SetStep 2\<rparr>,
               \<lparr>due = now s + 3000, cb = SetStep 3\<rparr>,
               \<lparr>due = now s + 4000, cb = Finish (selectedLocation s)\<rparr>]\<rparr>)"

text \<open>Running a callback. \<^verbatim>\<open>selectedLocation.id\<close> on \<^verbatim>\<open>undefined\<close> throws a TypeError
  before any setter is called.\<close>

fun run_callback :: "callback \<Rightarrow> app_state \<Rightarrow> error + app_state" where
  "run_callback (SetStep n) s = Inr (s\<lparr>step := n\<rparr>)"
| "run_callback (Finish None) s = Inl TypeError"
| "run_callback (Finish (Some loc)) s =
    Inr ((handleVerify (loc_id loc) s)
      \<lparr>isVerifying := False, formData := \<lparr>image' = None, description = ''''\<rparr>, step := 0\<rparr>)"

section \<open>Timers and the event loop\<close>

text \<open>
  \<^verbatim>\<open>setTimeout\<close> registers a timer; the event loop runs a timer's callback once its
  time has come, the earliest first and, among timers due at the same time, in the order
  of registration. An exception thrown by a callback ends that callback only: it is
  reported (here: appended to \<open>uncaught\<close>) and the state is as it was.
\<close>

definition fire :: "timer \<Rightarrow> app_state \<Rightarrow> app_state" where
  "fire tm s =
    (case run_callback (cb tm) s of
       Inl e \<Rightarrow> s\<lparr>uncaught := uncaught s @ [e]\<rparr>
     | Inr s' \<Rightarrow> s')"

fun next_timer :: "timer list \<Rightarrow> timer option" where
  "next_timer [] = None"
| "next_timer (x # xs) =
    (case next_timer xs of
       None \<Rightarrow> Some x
     | Some y \<Rightarrow> if due x \<le> due y then Some x else Some y)"

text \<open>Letting the clock run to the time \<open>t\<close>, with every timer due by then fired.\<close>

function advance :: "nat \<Rightarrow> app_state \<Rightarrow> app_state" where
  "advance t s =
    (case next_timer (timers s) of
       None \<Rightarrow> s\<lparr>now := max (now s) t\<rparr>
     | Some tm \<Rightarrow>
         if due tm \<le> t
         then advance t
                (fire tm (s\<lparr>timers := remove1 tm (timers s), now := max (now s) (due tm)\<rparr>))
         else s\<lparr>now := max (now s) t\<rparr>)"
  by pat_completeness auto
termination
proof (relation "measure (\<lambda>(t, s). length (timers s))")
  show "wf (measure (\<lambda>(t, s). length (timers s)))" by simp
next
  fix t :: nat and s :: app_state and tm :: timer
  assume nt: "next_timer (timers s) = Some tm" and "due tm \<le> t"
  have mem: "tm \<in> set xs" if "next_timer xs = Some tm" for xs
    using that by (induction xs arbitrary: tm) (auto split: option.splits if_splits)
  have keep: "timers (fire tm s') = timers s'" for s'
    by (cases "(cb tm, s')" rule: run_callback.cases)
       (auto simp: fire_def handleVerify_def)
  have "length (remove1 tm (timers s)) < length (timers s)"
    using mem[OF nt] by (simp add: length_remove1) (cases "timers s"; auto)
  then show "((t, fire tm (s\<lparr>timers := remove1 tm (timers s), now := max (now s) (due tm)\<rparr>)), (t, s))
      \<in> measure (\<lambda>(t, s). length (timers s))"
    by (simp add: keep)
qed

declare advance.simps [simp del]

section \<open>What is rendered, and the user's events\<close>

text \<open>
  A handler can only be called through the element it is attached to. \<^verbatim>\<open>App\<close> renders
  one beacon per location (its \<^verbatim>\<open>onClick\<close> selects that location's id); \<^verbatim>\<open>BountyPanel\<close>
  returns \<^verbatim>\<open>null\<close> without a selected location, so the close button exists only with
  one; the form, with its file input, its text area and its \<^verbatim>\<open>onSubmit\<close>, is rendered
  under \<^verbatim>\<open>selectedLocation.status === 'stale' && !isVerifying\<close>.
\<close>

definition beacon_rendered :: "nat \<Rightarrow> app_state \<Rightarrow> bool" where
  "beacon_rendered i s = (i \<in> set (map loc_id (locations s)))"

definition panel_rendered :: "app_state \<Rightarrow> bool" where
  "panel_rendered s = (selectedLocation s \<noteq> None)"

definition form_rendered :: "app_state \<Rightarrow> bool" where
  "form_rendered s =
    (case selectedLocation s of
       None \<Rightarrow> False
     | Some l \<Rightarrow> status l = Stale \<and> \<not> isVerifying s)"

datatype event =
    Click nat
  | Close
  | FileChange "image_file list"
  | DescriptionChange string
  | Submit
  | Wait nat

fun apply_event :: "event \<Rightarrow> app_state \<Rightarrow> app_state" where
  "apply_event (Click i) s = (if beacon_rendered i s then setSelectedId (Some i) s else s)"
| "apply_event Close s = (if panel_rendered s then setSelectedId None s else s)"
| "apply_event (FileChange files) s = (if form_rendered s then handleFileChange files s else s)"
| "apply_event (DescriptionChange v) s =
    (if form_rendered s then handleDescriptionChange v s else s)"
| "apply_event Submit s = (if form_rendered s then handleSubmit s else s)"
| "apply_event (Wait d) s = advance (now s + d) s"

fun run :: "event list \<Rightarrow> app_state \<Rightarrow> app_state" where
  "run [] s = s"
| "run (e # es) s = run es (apply_event e s)"

text \<open>The time a list of events takes, in milliseconds.\<close>

fun duration :: "event list \<Rightarrow> nat" where
  "duration [] = 0"
| "duration (Wait d # es) = d + duration es"
| "duration (_ # es) = duration es"

text \<open>The phase the step counter stands for:
  \<^verbatim>\<open>// 0: Idle, 1: Scanning, 2: Cross-Ref, 3: Success\<close>.\<close>

datatype phase = Idle | Scanning | CrossReferencing | Verdict

definition phase :: "app_state \<Rightarrow> phase option" where
  "phase s =
    (if step s = 0 then Some Idle
     else if step s = 1 then Some Scanning
     else if step s = 2 then Some CrossReferencing
     else if step s = 3 then Some Verdict
     else None)"

section \<open>Describing the states of a session\<close>

text \<open>
  The definitions of this section belong to the proofs, not to the program: they write
  down the state a session started in the state \<open>s\<close> for the location \<open>L\<close> is in once
  \<open>e\<close> milliseconds have passed, with \<open>sel\<close> the selection at that moment.
\<close>

definition session_timers :: "nat \<Rightarrow> location \<Rightarrow> nat \<Rightarrow> timer list" where
  "session_timers t0 L e =
    (if e < 1500 then [\<lparr>due = t0 + 1500, cb = SetStep 2\<rparr>] else []) @
    (if e < 3000 then [\<lparr>due = t0 + 3000, cb = SetStep 3\<rparr>] else []) @
    [\<lparr>due = t0 + 4000, cb = Finish (Some L)\<rparr>]"

definition in_flight :: "app_state \<Rightarrow> location \<Rightarrow> nat option \<Rightarrow> nat \<Rightarrow> app_state" where
  "in_flight s L sel e =
    s\<lparr>selectedId := sel, isVerifying := True,
      step := (if e < 1500 then 1 else if e < 3000 then 2 else 3),
      now := now s + e,
      timers := session_timers (now s) L e\<rparr>"

definition completed :: "app_state \<Rightarrow> location \<Rightarrow> nat option \<Rightarrow> nat \<Rightarrow> app_state" where
  "completed s L sel e =
    s\<lparr>locations := setFresh (loc_id L) (locations s), selectedId := sel,
      balance := balance s + BOUNTY_REWARD,
      formData := \<lparr>image' = None, description = ''''\<rparr>,
      isVerifying := False, step := 0, now := now s + e, timers := []\<rparr>"

definition idle :: "app_state \<Rightarrow> bool" where
  "idle s = (\<not> isVerifying s \<and> step s = 0 \<and> timers s = [])"

definition session_inv :: "app_state \<Rightarrow> bool" where
  "session_inv s =
    (idle s \<or> (\<exists>s0 L sel e. idle s0 \<and> e < 4000 \<and> s = in_flight s0 L sel e))"

text \<open>What may become of a location record: nothing, or its status set to fresh.\<close>

definition evolves :: "location \<Rightarrow> location \<Rightarrow> bool" where
  "evolves l l' = (l' = l \<or> l' = l\<lparr>status := Fresh\<rparr>)"

text \<open>A state to try things on: the Grand Cafe selected and a photo attached.\<close>

definition ready :: app_state where
  "ready = run [Click 1, FileChange [File ''photo.jpg'']] init"

section \<open>Basic facts\<close>

lemma init_simps:
  "locations init = LOCATIONS" "selectedId init = None" "balance init = INITIAL_BALANCE"
  "formData init = \<lparr>image' = None, description = ''''\<rparr>" "isVerifying init = False"
  "step init = 0" "now init = 0" "timers init = []" "uncaught init = []"
  by (simp_all add: init_def mount_def)

lemma setFresh_unknown: "i \<notin> set (map loc_id locs) \<Longrightarrow> setFresh i locs = locs"
  by (induction locs) (auto simp: setFresh_def)

lemma setFresh_already_fresh:
  "\<forall>l\<in>set locs. loc_id l = i \<longrightarrow> status l = Fresh \<Longrightarrow> setFresh i locs = locs"
  by (induction locs) (auto simp: setFresh_def)

section \<open>The handlers on their own\<close>

text \<open>
  Claim C3. Submitting with no evidence image attached changes nothing: in every state
  with \<open>formData.image\<close> null, \<^verbatim>\<open>handleSubmit\<close> returns the state as it is (so the phase,
  the registry, the balance, the selection, the form and the list of uncaught errors are
  what they were), and so does the submit event.
\<close>

theorem submit_without_image_noop:
  "image' (formData s) = None \<Longrightarrow>
     handleSubmit s = s \<and> apply_event Submit s = s \<and> phase (apply_event Submit s) = phase s"
  by (simp add: handleSubmit_def)

theorem submit_without_image_noop_witness:
  "form_rendered (run [Click 1] init) \<and>
   image' (formData (run [Click 1] init)) = None \<and>
   handleSubmit (run [Click 1] init) = run [Click 1] init \<and>
   apply_event Submit (run [Click 1] init) = run [Click 1] init \<and>
   phase (apply_event Submit (run [Click 1] init)) = Some Idle"
  using submit_without_image_noop [of "run [Click 1] init"]
  by (simp add: init_simps LOCATIONS_def beacon_rendered_def setSelectedId_def form_rendered_def
      selectedLocation_def phase_def)

text \<open>
  Claim C5. \<^verbatim>\<open>handleVerify(id)\<close> adds the reward to the balance for every id and in every
  state. When no location has the id, or when every location with the id is fresh
  already, the location list stays as it is and the balance is credited all the same.
\<close>

theorem handleVerify_credits_unconditionally:
  "balance (handleVerify i s) = balance s + BOUNTY_REWARD \<and>
   (i \<notin> set (map loc_id (locations s)) \<longrightarrow> locations (handleVerify i s) = locations s) \<and>
   ((\<forall>l\<in>set (locations s). loc_id l = i \<longrightarrow> status l = Fresh) \<longrightarrow>
      locations (handleVerify i s) = locations s)"
  by (simp add: handleVerify_def setFresh_unknown setFresh_already_fresh)

theorem handleVerify_credits_unconditionally_witness:
  "balance (handleVerify 99 init) = 139.5 \<and> locations (handleVerify 99 init) = LOCATIONS \<and>
   balance (handleVerify 2 init) = 139.5 \<and> locations (handleVerify 2 init) = LOCATIONS"
  using handleVerify_credits_unconditionally [of 99 init]
    handleVerify_credits_unconditionally [of 2 init]
  by (simp add: init_simps LOCATIONS_def INITIAL_BALANCE_def BOUNTY_REWARD_def)

text \<open>
  Claim C6. The status update with an id no location has leaves every location record
  as it is; \<^verbatim>\<open>handleVerify\<close> returns normally and reports no error.
\<close>

theorem setStatus_unknown_id_noop:
  "i \<notin> set (map loc_id (locations s)) \<Longrightarrow>
     setFresh i (locations s) = locations s \<and>
     locations (handleVerify i s) = locations s \<and>
     uncaught (handleVerify i s) = uncaught s"
  by (simp add: handleVerify_def setFresh_unknown)

theorem setStatus_unknown_id_noop_witness:
  "42 \<notin> set (map loc_id (locations init)) \<and>
   setFresh 42 (locations init) = LOCATIONS \<and>
   locations (handleVerify 42 init) = LOCATIONS \<and>
   uncaught (handleVerify 42 init) = []"
  using setStatus_unknown_id_noop [of 42 init]
  by (simp add: init_simps LOCATIONS_def)

text \<open>
  Claim C10. Selecting an id twice in a row gives the same state, and so the same
  selected location, as selecting it once; the same holds for two clicks on a beacon.
\<close>

theorem select_idempotent:
  "setSelectedId (Some i) (setSelectedId (Some i) s) = setSelectedId (Some i) s \<and>
   selectedLocation (setSelectedId (Some i) (setSelectedId (Some i) s)) =
     selectedLocation (setSelectedId (Some i) s) \<and>
   apply_event (Click i) (apply_event (Click i) s) = apply_event (Click i) s"
  by (simp add: setSelectedId_def beacon_rendered_def)

theorem select_idempotent_witness:
  "setSelectedId (Some 3) (setSelectedId (Some 3) init) = setSelectedId (Some 3) init \<and>
   selectedLocation (setSelectedId (Some 3) (setSelectedId (Some 3) init)) = Some (LOCATIONS ! 2) \<and>
   selectedLocation (setSelectedId (Some 3) init) = Some (LOCATIONS ! 2) \<and>
   run [Click 3, Click 3] init = run [Click 3] init"
  using select_idempotent [of 3 init]
  by (simp add: init_simps LOCATIONS_def setSelectedId_def selectedLocation_def)

text \<open>
  Claim C7, as stated, fails: selecting an id that no location has is not ignored. With
  the Grand Cafe (id 1) selected, selecting the id 99 replaces the stored selection, the
  selected location goes from the Grand Cafe to none and the panel is no longer rendered.
\<close>

theorem select_unknown_id_counterexample:
  "99 \<notin> set (map loc_id (locations (run [Click 1] init))) \<and>
   setSelectedId (Some 99) (run [Click 1] init) \<noteq> run [Click 1] init \<and>
   selectedId (run [Click 1] init) = Some 1 \<and>
   selectedId (setSelectedId (Some 99) (run [Click 1] init)) = Some 99 \<and>
   selectedLocation (run [Click 1] init) = Some (LOCATIONS ! 0) \<and>
   selectedLocation (setSelectedId (Some 99) (run [Click 1] init)) = None \<and>
   panel_rendered (run [Click 1] init) \<and>
   \<not> panel_rendered (setSelectedId (Some 99) (run [Click 1] init))"
proof -
  have sel: "selectedId (run [Click 1] init) = Some 1"
    by (simp add: init_simps LOCATIONS_def beacon_rendered_def setSelectedId_def)
  have "selectedId (setSelectedId (Some 99) (run [Click 1] init)) \<noteq> selectedId (run [Click 1] init)"
    unfolding sel by (simp add: setSelectedId_def)
  then have "setSelectedId (Some 99) (run [Click 1] init) \<noteq> run [Click 1] init"
    by metis
  then show ?thesis
    by (simp add: init_simps LOCATIONS_def beacon_rendered_def setSelectedId_def
        selectedLocation_def panel_rendered_def)
qed

text \<open>
  Claim C7, amended. Selecting an id that no location has stores that id as the
  selection and changes nothing else in the state; afterwards the selected location is
  none (the lookup finds nothing and returns), so neither the panel nor the form is
  rendered.
\<close>

theorem select_unknown_id:
  "i \<notin> set (map loc_id (locations s)) \<Longrightarrow>
     setSelectedId (Some i) s = s\<lparr>selectedId := Some i\<rparr> \<and>
     selectedLocation (setSelectedId (Some i) s) = None \<and>
     \<not> panel_rendered (setSelectedId (Some i) s) \<and>
     \<not> form_rendered (setSelectedId (Some i) s)"
proof -
  assume "i \<notin> set (map loc_id (locations s))"
  then have "find (\<lambda>l. loc_id l = i) (locations s) = None"
    by (auto simp: find_None_iff)
  then show ?thesis
    by (simp add: setSelectedId_def selectedLocation_def panel_rendered_def form_rendered_def)
qed

theorem select_unknown_id_witness:
  "99 \<notin> set (map loc_id (locations (run [Click 1] init))) \<and>
   setSelectedId (Some 99) (run [Click 1] init) = (run [Click 1] init)\<lparr>selectedId := Some 99\<rparr> \<and>
   selectedLocation (setSelectedId (Some 99) (run [Click 1] init)) = None \<and>
   \<not> panel_rendered (setSelectedId (Some 99) (run [Click 1] init)) \<and>
   \<not> form_rendered (setSelectedId (Some 99) (run [Click 1] init))"
  using select_unknown_id [of 99 "run [Click 1] init"]
  by (simp add: init_simps LOCATIONS_def beacon_rendered_def setSelectedId_def)

section \<open>The states of a session\<close>

lemma submit_in_flight:
  assumes "selectedLocation s = Some L" "form_rendered s" "image' (formData s) \<noteq> None"
    "timers s = []"
  shows "apply_event Submit s = in_flight s L (selectedId s) 0"
  using assms
  by (auto simp: handleSubmit_def in_flight_def session_timers_def form_rendered_def)

lemma wait_in_flight:
  assumes "e + d < 4000"
  shows "apply_event (Wait d) (in_flight s L sel e) = in_flight s L sel (e + d)"
proof -
  consider "e + d < 1500" | "e < 1500" "1500 \<le> e + d" "e + d < 3000"
    | "e < 1500" "3000 \<le> e + d" | "1500 \<le> e" "e + d < 3000"
    | "1500 \<le> e" "e < 3000" "3000 \<le> e + d" | "3000 \<le> e"
    by linarith
  then show ?thesis
    using assms
    by cases
      (simp_all add: in_flight_def session_timers_def advance.simps max_def fire_def)
qed

lemma wait_completes:
  assumes "e < 4000" "4000 \<le> e + d"
  shows "apply_event (Wait d) (in_flight s L sel e) = completed s L sel (e + d)"
proof -
  consider "e < 1500" | "1500 \<le> e" "e < 3000" | "3000 \<le> e"
    by linarith
  then show ?thesis
    using assms
    by cases
      (simp_all add: in_flight_def completed_def session_timers_def advance.simps max_def
        fire_def handleVerify_def)
qed

lemma form_hidden_in_flight: "\<not> form_rendered (in_flight s L sel e)"
  by (simp add: form_rendered_def in_flight_def split: option.splits)

lemma other_in_flight:
  assumes "\<forall>d. ev \<noteq> Wait d"
  shows "\<exists>sel'. apply_event ev (in_flight s L sel e) = in_flight s L sel' e"
proof (cases ev)
  case (Click i)
  have "apply_event ev (in_flight s L sel e) = in_flight s L (Some i) e
      \<or> apply_event ev (in_flight s L sel e) = in_flight s L sel e"
    using Click by (simp add: setSelectedId_def in_flight_def)
  then show ?thesis by blast
next
  case Close
  have "apply_event ev (in_flight s L sel e) = in_flight s L None e
      \<or> apply_event ev (in_flight s L sel e) = in_flight s L sel e"
    using Close by (simp add: setSelectedId_def in_flight_def)
  then show ?thesis by blast
next
  case (Wait d)
  then show ?thesis using assms by simp
qed (use form_hidden_in_flight in auto)

lemma in_flight_fields:
  "locations (in_flight s L sel e) = locations s"
  "balance (in_flight s L sel e) = balance s"
  "selectedId (in_flight s L sel e) = sel"
  "isVerifying (in_flight s L sel e)"
  "formData (in_flight s L sel e) = formData s"
  "uncaught (in_flight s L sel e) = uncaught s"
  "now (in_flight s L sel e) = now s + e"
  by (simp_all add: in_flight_def)

lemma completed_fields:
  "locations (completed s L sel e) = setFresh (loc_id L) (locations s)"
  "balance (completed s L sel e) = balance s + BOUNTY_REWARD"
  "selectedId (completed s L sel e) = sel"
  "\<not> isVerifying (completed s L sel e)"
  "step (completed s L sel e) = 0"
  "formData (completed s L sel e) = \<lparr>image' = None, description = ''''\<rparr>"
  "uncaught (completed s L sel e) = uncaught s"
  "idle (completed s L sel e)"
  by (simp_all add: completed_def idle_def)

lemma step_in_flight:
  "step (in_flight s L sel e) = (if e < 1500 then 1 else if e < 3000 then 2 else 3)"
  by (simp add: in_flight_def)

text \<open>Every list of events that takes less than the rest of the four seconds leaves the
  session in flight; the events can only change the selection.\<close>

lemma run_in_flight:
  "e + duration es < 4000 \<Longrightarrow>
     \<exists>sel'. run es (in_flight s L sel e) = in_flight s L sel' (e + duration es)"
proof (induction es arbitrary: sel e)
  case Nil
  show ?case by (rule exI [of _ sel]) simp
next
  case (Cons ev es)
  show ?case
  proof (cases "\<exists>d. ev = Wait d")
    case True
    then obtain d where ev: "ev = Wait d" ..
    with Cons.prems have "e + d < 4000" and "(e + d) + duration es < 4000" by simp_all
    from Cons.IH [OF this(2)] wait_in_flight [OF this(1)] show ?thesis
      by (auto simp: ev add.assoc)
  next
    case False
    then have nw: "\<forall>d. ev \<noteq> Wait d" by simp
    then have dur: "duration (ev # es) = duration es" by (cases ev) simp_all
    from other_in_flight [OF nw] obtain sel1
      where "apply_event ev (in_flight s L sel e) = in_flight s L sel1 e" ..
    moreover from Cons.prems dur have "e + duration es < 4000" by simp
    from Cons.IH [OF this] obtain sel' where
      "run es (in_flight s L sel1 e) = in_flight s L sel' (e + duration es)" ..
    ultimately show ?thesis by (auto simp: dur)
  qed
qed

section \<open>The invariant of the reachable states\<close>

lemma idle_step:
  assumes "idle s"
  shows "(idle (apply_event ev s) \<and> locations (apply_event ev s) = locations s
            \<and> balance (apply_event ev s) = balance s) \<or>
         (ev = Submit \<and> image' (formData s) \<noteq> None \<and>
            (\<exists>L. selectedLocation s = Some L \<and> status L = Stale \<and>
                 apply_event ev s = in_flight s L (selectedId s) 0))"
proof (cases ev)
  case Submit
  show ?thesis
  proof (cases "form_rendered s \<and> image' (formData s) \<noteq> None")
    case True
    then obtain L where L: "selectedLocation s = Some L" "status L = Stale"
      by (auto simp: form_rendered_def split: option.splits)
    with True assms have "apply_event Submit s = in_flight s L (selectedId s) 0"
      by (intro submit_in_flight) (simp_all add: idle_def)
    with True L Submit show ?thesis by blast
  next
    case False
    then have "apply_event ev s = s"
      using Submit by (auto simp: handleSubmit_def)
    with assms show ?thesis by simp
  qed
next
  case (Wait d)
  with assms show ?thesis
    by (simp add: idle_def advance.simps)
qed (use assms in \<open>auto simp: idle_def setSelectedId_def handleFileChange_def
      handleDescriptionChange_def split: list.splits\<close>)

lemma session_inv_mount: "session_inv (mount locs bal)"
  by (simp add: session_inv_def idle_def mount_def)

text \<open>One event from a state of the invariant: the invariant holds again, and either
  the registry and the balance are as before or one completion has happened.\<close>

lemma session_inv_step:
  assumes "session_inv s"
  shows "session_inv (apply_event ev s) \<and>
         ((locations (apply_event ev s) = locations s \<and>
             balance (apply_event ev s) = balance s) \<or>
          (\<exists>i. locations (apply_event ev s) = setFresh i (locations s) \<and>
             balance (apply_event ev s) = balance s + BOUNTY_REWARD))"
proof (cases "idle s")
  case True
  from idle_step [OF True, of ev] show ?thesis
  proof
    assume "idle (apply_event ev s) \<and> locations (apply_event ev s) = locations s
            \<and> balance (apply_event ev s) = balance s"
    then show ?thesis by (simp add: session_inv_def)
  next
    assume "ev = Submit \<and> image' (formData s) \<noteq> None \<and>
            (\<exists>L. selectedLocation s = Some L \<and> status L = Stale \<and>
                 apply_event ev s = in_flight s L (selectedId s) 0)"
    then obtain L where st: "apply_event ev s = in_flight s L (selectedId s) 0" by blast
    have "session_inv (in_flight s L (selectedId s) 0)"
      unfolding session_inv_def using True
      by (intro disjI2 exI [of _ s] exI [of _ L] exI [of _ "selectedId s"] exI [of _ 0]) simp
    then show ?thesis by (simp add: st in_flight_fields)
  qed
next
  case False
  with assms obtain s0 L sel e where fl: "idle s0" "e < 4000" "s = in_flight s0 L sel e"
    by (auto simp: session_inv_def)
  then have base: "locations s = locations s0" "balance s = balance s0"
    by (simp_all add: in_flight_fields)
  show ?thesis
  proof (cases "\<exists>d. ev = Wait d")
    case True
    then obtain d where ev: "ev = Wait d" ..
    show ?thesis
    proof (cases "e + d < 4000")
      case True
      then have "apply_event ev s = in_flight s0 L sel (e + d)"
        by (simp only: ev fl wait_in_flight)
      moreover have "session_inv (in_flight s0 L sel (e + d))"
        unfolding session_inv_def using fl(1) True by blast
      ultimately show ?thesis by (simp add: base in_flight_fields)
    next
      case False
      with fl(2) have "apply_event ev s = completed s0 L sel (e + d)"
        by (simp only: ev fl wait_completes)
      then show ?thesis
        by (auto simp: base completed_fields session_inv_def)
    qed
  next
    case False
    then have "\<forall>d. ev \<noteq> Wait d" by simp
    from other_in_flight [OF this] obtain sel' where
      st: "apply_event ev s = in_flight s0 L sel' e" unfolding fl(3) ..
    have "session_inv (in_flight s0 L sel' e)"
      unfolding session_inv_def using fl(1,2) by blast
    then show ?thesis by (simp add: st base in_flight_fields)
  qed
qed

lemma session_inv_run: "session_inv s \<Longrightarrow> session_inv (run es s)"
  by (induction es arbitrary: s) (simp_all add: session_inv_step)

lemma session_inv_reachable: "session_inv (run es (mount locs bal))"
  by (simp add: session_inv_run session_inv_mount)

lemma run_append: "run (es @ es') s = run es' (run es s)"
  by (induction es arbitrary: s) simp_all

lemma session_inv_idle:
  "session_inv s \<Longrightarrow> idle s \<longleftrightarrow> \<not> isVerifying s"
  by (auto simp: session_inv_def idle_def in_flight_fields)

lemma session_inv_idle_step:
  "session_inv s \<Longrightarrow> idle s \<longleftrightarrow> step s = 0"
  by (auto simp: session_inv_def idle_def step_in_flight split: if_splits)

section \<open>Facts about the registry and the phase\<close>

lemma find_setFresh:
  "find (\<lambda>l. loc_id l = i) locs = Some L \<Longrightarrow>
     find (\<lambda>l. loc_id l = i) (setFresh i locs) = Some (L\<lparr>status := Fresh\<rparr>)"
  by (induction locs) (auto simp: setFresh_def)

lemma find_Some_holds: "find P xs = Some x \<Longrightarrow> P x"
  by (induction xs) (auto split: if_splits)

lemma selectedLocation_id: "selectedLocation s = Some L \<Longrightarrow> selectedId s = Some (loc_id L)"
  by (cases "selectedId s") (auto simp: selectedLocation_def dest: find_Some_holds)

lemma setFresh_status: "l \<in> set (setFresh i locs) \<Longrightarrow> loc_id l = i \<Longrightarrow> status l = Fresh"
proof (induction locs)
  case Nil
  then show ?case by (simp add: setFresh_def)
next
  case (Cons a locs)
  from Cons.prems(1) have "l = (if loc_id a = i then a\<lparr>status := Fresh\<rparr> else a) \<or> l \<in> set (setFresh i locs)"
    by (simp add: setFresh_def)
  then show ?case
  proof
    assume "l = (if loc_id a = i then a\<lparr>status := Fresh\<rparr> else a)"
    with Cons.prems(2) show ?thesis by (cases "loc_id a = i") simp_all
  next
    assume "l \<in> set (setFresh i locs)"
    then show ?thesis using Cons.prems(2) by (rule Cons.IH)
  qed
qed

lemma phase_in_flight:
  "phase (in_flight s L sel e) =
     Some (if e < 1500 then Scanning else if e < 3000 then CrossReferencing else Verdict)"
  by (simp add: phase_def step_in_flight)

lemma phase_idle: "idle s \<Longrightarrow> phase s = Some Idle"
  by (simp add: phase_def idle_def)

lemma selectedLocation_completed:
  assumes "selectedLocation s = Some L"
  shows "selectedLocation (completed s L (selectedId s) e) = Some (L\<lparr>status := Fresh\<rparr>)"
proof -
  from assms have "selectedId s = Some (loc_id L)" by (rule selectedLocation_id)
  moreover from this assms have "find (\<lambda>l. loc_id l = loc_id L) (locations s) = Some L"
    by (simp add: selectedLocation_def)
  ultimately show ?thesis
    by (simp add: selectedLocation_def completed_fields find_setFresh)
qed

lemma submit_starts_session:
  assumes "s = run es (mount locs bal)"
    and "selectedLocation s = Some L" and "status L = Stale" and "\<not> isVerifying s"
    and "image' (formData s) \<noteq> None"
  shows "idle s" and "apply_event Submit s = in_flight s L (selectedId s) 0"
proof -
  have inv: "session_inv s" unfolding assms(1) by (rule session_inv_reachable)
  with assms(4) show "idle s" by (simp add: session_inv_idle)
  then have "timers s = []" by (simp add: idle_def)
  moreover have "form_rendered s"
    using assms(2-4) by (simp add: form_rendered_def)
  ultimately show "apply_event Submit s = in_flight s L (selectedId s) 0"
    using assms(2,5) by (intro submit_in_flight)
qed

lemma ready_state:
  "ready = init\<lparr>selectedId := Some 1,
     formData := \<lparr>image' = Some (File ''photo.jpg''), description = ''''\<rparr>\<rparr>"
  by (simp add: ready_def init_simps LOCATIONS_def beacon_rendered_def setSelectedId_def
      form_rendered_def selectedLocation_def handleFileChange_def)

lemma ready_facts:
  "selectedLocation ready = Some (LOCATIONS ! 0)" "status (LOCATIONS ! 0) = Stale"
  "\<not> isVerifying ready" "image' (formData ready) \<noteq> None" "balance ready = 124.5"
  "locations ready = LOCATIONS" "loc_id (LOCATIONS ! 0) = 1" "now ready = 0"
  by (simp_all add: ready_state init_simps selectedLocation_def LOCATIONS_def INITIAL_BALANCE_def)

section \<open>The timeline of a session\<close>

text \<open>
  Claim C1. Take any state the application can reach in which a stale location \<open>L\<close> is
  selected, no verification is running and an evidence image is attached, and submit the
  form. Right after the submission the phase is Scanning; \<open>d\<close> milliseconds later (with
  nothing else done in between) the phase is Scanning while \<open>d < 1500\<close>, CrossReferencing
  from 1500, Verdict from 3000, and from 4000 on the phase is Idle, the location \<open>L\<close> is
  fresh (every record with its id is, and the selected record is \<open>L\<close> with the status
  fresh), the balance is the balance before the submission plus the reward, and the
  image and the note are cleared.
\<close>

theorem verification_timeline:
  assumes "s = run es (mount locs bal)"
    and "selectedLocation s = Some L" and "status L = Stale" and "\<not> isVerifying s"
    and "image' (formData s) \<noteq> None"
  shows "phase (apply_event Submit s) = Some Scanning \<and>
    (d < 1500 \<longrightarrow> phase (run [Submit, Wait d] s) = Some Scanning) \<and>
    (1500 \<le> d \<and> d < 3000 \<longrightarrow> phase (run [Submit, Wait d] s) = Some CrossReferencing) \<and>
    (3000 \<le> d \<and> d < 4000 \<longrightarrow> phase (run [Submit, Wait d] s) = Some Verdict) \<and>
    (4000 \<le> d \<longrightarrow>
       phase (run [Submit, Wait d] s) = Some Idle \<and>
       \<not> isVerifying (run [Submit, Wait d] s) \<and>
       selectedLocation (run [Submit, Wait d] s) = Some (L\<lparr>status := Fresh\<rparr>) \<and>
       locations (run [Submit, Wait d] s) = setFresh (loc_id L) (locations s) \<and>
       (\<forall>l\<in>set (locations (run [Submit, Wait d] s)). loc_id l = loc_id L \<longrightarrow> status l = Fresh) \<and>
       balance (run [Submit, Wait d] s) = balance s + BOUNTY_REWARD \<and>
       formData (run [Submit, Wait d] s) = \<lparr>image' = None, description = ''''\<rparr>)"
proof -
  note start = submit_starts_session [OF assms]
  have scanning: "phase (apply_event Submit s) = Some Scanning"
    by (simp only: start(2) phase_in_flight) simp
  have first: "run [Submit, Wait d] s = apply_event (Wait d) (in_flight s L (selectedId s) 0)"
    by (simp only: run.simps start(2))
  have before: "run [Submit, Wait d] s = in_flight s L (selectedId s) d" if "d < 4000"
    using that by (simp only: first) (simp only: wait_in_flight add_0)
  have after: "run [Submit, Wait d] s = completed s L (selectedId s) d" if "4000 \<le> d"
    using that by (simp only: first) (simp only: wait_completes add_0)
  show ?thesis
  proof (intro conjI impI)
    show "phase (apply_event Submit s) = Some Scanning" by (rule scanning)
  next
    assume d: "d < 1500"
    then have "run [Submit, Wait d] s = in_flight s L (selectedId s) d" by (intro before) simp
    with d show "phase (run [Submit, Wait d] s) = Some Scanning"
      by (simp only: phase_in_flight if_True)
  next
    assume d: "1500 \<le> d \<and> d < 3000"
    then have "run [Submit, Wait d] s = in_flight s L (selectedId s) d" by (intro before) simp
    moreover from d have "\<not> d < 1500" by simp
    ultimately show "phase (run [Submit, Wait d] s) = Some CrossReferencing"
      using d by (simp only: phase_in_flight if_True if_False)
  next
    assume d: "3000 \<le> d \<and> d < 4000"
    then have "run [Submit, Wait d] s = in_flight s L (selectedId s) d" by (intro before) simp
    moreover from d have "\<not> d < 1500" "\<not> d < 3000" by simp_all
    ultimately show "phase (run [Submit, Wait d] s) = Some Verdict"
      by (simp only: phase_in_flight if_False)
  next
    assume d: "4000 \<le> d"
    note fin = after [OF d]
    show "phase (run [Submit, Wait d] s) = Some Idle"
      by (simp only: fin phase_idle completed_fields)
    show "\<not> isVerifying (run [Submit, Wait d] s)"
      by (simp only: fin completed_fields not_False_eq_True)
    show "selectedLocation (run [Submit, Wait d] s) = Some (L\<lparr>status := Fresh\<rparr>)"
      by (simp only: fin selectedLocation_completed [OF assms(2)])
    show "locations (run [Submit, Wait d] s) = setFresh (loc_id L) (locations s)"
      by (simp only: fin completed_fields)
    show "\<forall>l\<in>set (locations (run [Submit, Wait d] s)). loc_id l = loc_id L \<longrightarrow> status l = Fresh"
      unfolding fin completed_fields by (blast dest: setFresh_status)
    show "balance (run [Submit, Wait d] s) = balance s + BOUNTY_REWARD"
      by (simp only: fin completed_fields)
    show "formData (run [Submit, Wait d] s) = \<lparr>image' = None, description = ''''\<rparr>"
      by (simp only: fin completed_fields)
  qed
qed

theorem verification_timeline_witness:
  "selectedLocation ready = Some (LOCATIONS ! 0) \<and> status (LOCATIONS ! 0) = Stale \<and>
   \<not> isVerifying ready \<and> image' (formData ready) \<noteq> None \<and>
   phase (apply_event Submit ready) = Some Scanning \<and>
   phase (run [Submit, Wait 1500] ready) = Some CrossReferencing \<and>
   phase (run [Submit, Wait 3000] ready) = Some Verdict \<and>
   phase (run [Submit, Wait 4000] ready) = Some Idle \<and>
   selectedLocation (run [Submit, Wait 4000] ready) = Some ((LOCATIONS ! 0)\<lparr>status := Fresh\<rparr>) \<and>
   balance (run [Submit, Wait 4000] ready) = 139.5 \<and>
   formData (run [Submit, Wait 4000] ready) = \<lparr>image' = None, description = ''''\<rparr>"
proof -
  have r: "ready = run [Click 1, FileChange [File ''photo.jpg'']] (mount LOCATIONS INITIAL_BALANCE)"
    by (simp only: ready_def init_def)
  note t = verification_timeline [OF r ready_facts(1-4)]
  from t [of 0] t [of 1500] t [of 3000] t [of 4000] show ?thesis
    by (simp add: ready_facts BOUNTY_REWARD_def del: run.simps apply_event.simps)
qed

lemma length_setFresh: "length (setFresh i locs) = length locs"
  by (simp add: setFresh_def)

lemma setFresh_others:
  "k < length locs \<Longrightarrow> loc_id (locs ! k) \<noteq> i \<Longrightarrow> setFresh i locs ! k = locs ! k"
  by (simp add: setFresh_def)

lemma selectedLocation_find:
  assumes "selectedLocation s = Some L"
  shows "find (\<lambda>l. loc_id l = loc_id L) (locations s) = Some L"
proof -
  from assms have "selectedId s = Some (loc_id L)" by (rule selectedLocation_id)
  with assms show ?thesis by (simp add: selectedLocation_def)
qed

text \<open>
  Claim C4. After a submission as in C1, whatever the user does within the four seconds
  (closing the panel, clicking other beacons, waiting: any list of events \<open>es\<close> that
  takes less than 4000 ms) the session is still in flight, in the phase its age gives
  it: the completion timer with the location captured at the submission is still
  pending, the registry is as it was (the captured record still stale in it) and nothing
  is credited yet. Once the clock passes 4000 ms the completion has fired for the
  captured id: every record with that id has the status fresh, the record found under
  that id is the captured one with the status fresh, the records with other ids and the
  length of the list are as before, the reward is credited, no timer is pending and the
  phase is Idle, while the selection is the one the user made in between.
\<close>

theorem completion_not_cancelled:
  assumes "s = run es0 (mount locs bal)"
    and "selectedLocation s = Some L" and "status L = Stale" and "\<not> isVerifying s"
    and "image' (formData s) \<noteq> None"
    and "duration es < 4000" and "4000 \<le> duration es + d"
  shows "isVerifying (run (Submit # es) s) \<and>
    phase (run (Submit # es) s) =
      Some (if duration es < 1500 then Scanning
            else if duration es < 3000 then CrossReferencing else Verdict) \<and>
    \<lparr>due = now s + 4000, cb = Finish (Some L)\<rparr> \<in> set (timers (run (Submit # es) s)) \<and>
    locations (run (Submit # es) s) = locations s \<and>
    find (\<lambda>l. loc_id l = loc_id L) (locations (run (Submit # es) s)) = Some L \<and>
    balance (run (Submit # es) s) = balance s \<and>
    locations (run (Submit # es @ [Wait d]) s) = setFresh (loc_id L) (locations s) \<and>
    (\<forall>l\<in>set (locations (run (Submit # es @ [Wait d]) s)).
       loc_id l = loc_id L \<longrightarrow> status l = Fresh) \<and>
    find (\<lambda>l. loc_id l = loc_id L) (locations (run (Submit # es @ [Wait d]) s))
      = Some (L\<lparr>status := Fresh\<rparr>) \<and>
    length (locations (run (Submit # es @ [Wait d]) s)) = length (locations s) \<and>
    (\<forall>k<length (locations s). loc_id (locations s ! k) \<noteq> loc_id L \<longrightarrow>
       locations (run (Submit # es @ [Wait d]) s) ! k = locations s ! k) \<and>
    balance (run (Submit # es @ [Wait d]) s) = balance s + BOUNTY_REWARD \<and>
    selectedId (run (Submit # es @ [Wait d]) s) = selectedId (run (Submit # es) s) \<and>
    \<not> isVerifying (run (Submit # es @ [Wait d]) s) \<and>
    timers (run (Submit # es @ [Wait d]) s) = [] \<and>
    phase (run (Submit # es @ [Wait d]) s) = Some Idle"
proof -
  note start = submit_starts_session [OF assms(1-5)]
  from run_in_flight [of 0 es s L "selectedId s"] assms(6)
  obtain sel where mid: "run es (in_flight s L (selectedId s) 0) = in_flight s L sel (duration es)"
    by auto
  have s1: "run (Submit # es) s = in_flight s L sel (duration es)"
    by (simp only: run.simps start(2) mid)
  have "run (Submit # es @ [Wait d]) s = run ((Submit # es) @ [Wait d]) s"
    by simp
  also have "\<dots> = run [Wait d] (run (Submit # es) s)"
    by (rule run_append)
  also have "\<dots> = apply_event (Wait d) (in_flight s L sel (duration es))"
    by (simp only: s1) (simp only: run.simps)
  also have "\<dots> = completed s L sel (duration es + d)"
    using assms(6,7) by (rule wait_completes)
  finally have s2: "run (Submit # es @ [Wait d]) s = completed s L sel (duration es + d)" .
  have pending:
    "\<lparr>due = now s + 4000, cb = Finish (Some L)\<rparr> \<in> set (timers (in_flight s L sel (duration es)))"
    by (simp add: in_flight_def session_timers_def)
  have found: "find (\<lambda>l. loc_id l = loc_id L) (locations s) = Some L"
    using assms(2) by (rule selectedLocation_find)
  have flipped: "\<forall>l\<in>set (setFresh (loc_id L) (locations s)). loc_id l = loc_id L \<longrightarrow> status l = Fresh"
    by (blast dest: setFresh_status)
  have found': "find (\<lambda>l. loc_id l = loc_id L) (setFresh (loc_id L) (locations s))
      = Some (L\<lparr>status := Fresh\<rparr>)"
    using found by (rule find_setFresh)
  have others: "\<forall>k<length (locations s). loc_id (locations s ! k) \<noteq> loc_id L \<longrightarrow>
      setFresh (loc_id L) (locations s) ! k = locations s ! k"
    by (simp add: setFresh_others)
  have no_timers: "timers (completed s L sel (duration es + d)) = []"
    by (simp add: completed_def)
  from pending found flipped found' others no_timers show ?thesis
    unfolding s1 s2
    by (simp add: in_flight_fields completed_fields phase_idle phase_in_flight length_setFresh)
qed

theorem completion_not_cancelled_witness:
  "selectedLocation ready = Some (LOCATIONS ! 0) \<and> status (LOCATIONS ! 0) = Stale \<and>
   \<not> isVerifying ready \<and> image' (formData ready) \<noteq> None \<and>
   duration [Wait 1000, Close, Wait 2000, Click 2] < 4000 \<and>
   4000 \<le> duration [Wait 1000, Close, Wait 2000, Click 2] + 1000 \<and>
   isVerifying (run [Submit, Wait 1000, Close, Wait 2000, Click 2] ready) \<and>
   phase (run [Submit, Wait 1000, Close, Wait 2000, Click 2] ready) = Some Verdict \<and>
   \<lparr>due = 4000, cb = Finish (Some (LOCATIONS ! 0))\<rparr>
      \<in> set (timers (run [Submit, Wait 1000, Close, Wait 2000, Click 2] ready)) \<and>
   map status (locations (run [Submit, Wait 1000, Close, Wait 2000, Click 2] ready)) =
     [Stale, Fresh, Fresh, Fresh, Fresh] \<and>
   balance (run [Submit, Wait 1000, Close, Wait 2000, Click 2] ready) = 124.5 \<and>
   locations (run [Submit, Wait 1000, Close, Wait 2000, Click 2, Wait 1000] ready) =
     setFresh 1 LOCATIONS \<and>
   map status (locations (run [Submit, Wait 1000, Close, Wait 2000, Click 2, Wait 1000] ready)) =
     [Fresh, Fresh, Fresh, Fresh, Fresh] \<and>
   status (locations (run [Submit, Wait 1000, Close, Wait 2000, Click 2, Wait 1000] ready) ! 0) =
     Fresh \<and>
   find (\<lambda>l. loc_id l = 1)
       (locations (run [Submit, Wait 1000, Close, Wait 2000, Click 2, Wait 1000] ready)) =
     Some \<lparr>loc_id = 1, name = ''The Grand Cafe'', position = [0, 0.5, 0], status = Fresh,
            loc_type = ''cafe''\<rparr> \<and>
   balance (run [Submit, Wait 1000, Close, Wait 2000, Click 2, Wait 1000] ready) = 139.5 \<and>
   selectedId (run [Submit, Wait 1000, Close, Wait 2000, Click 2, Wait 1000] ready) =
     selectedId (run [Submit, Wait 1000, Close, Wait 2000, Click 2] ready) \<and>
   timers (run [Submit, Wait 1000, Close, Wait 2000, Click 2, Wait 1000] ready) = [] \<and>
   phase (run [Submit, Wait 1000, Close, Wait 2000, Click 2, Wait 1000] ready) = Some Idle"
proof -
  have r: "ready = run [Click 1, FileChange [File ''photo.jpg'']] (mount LOCATIONS INITIAL_BALANCE)"
    by (simp only: ready_def init_def)
  have d: "duration [Wait 1000, Close, Wait 2000, Click 2] < 4000"
    "4000 \<le> duration [Wait 1000, Close, Wait 2000, Click 2] + 1000"
    by simp_all
  have dv: "duration [Wait 1000, Close, Wait 2000, Click 2] = 3000"
    by simp
  note c = completion_not_cancelled [OF r ready_facts(1-4) d]
  let ?mid = "run [Submit, Wait 1000, Close, Wait 2000, Click 2] ready"
  let ?fin = "run [Submit, Wait 1000, Close, Wait 2000, Click 2, Wait 1000] ready"
  from c have before: "locations ?mid = LOCATIONS"
    by (simp add: ready_facts del: run.simps duration.simps)
  from c have after: "locations ?fin = setFresh 1 LOCATIONS"
    by (simp add: ready_facts del: run.simps duration.simps)
  have st0: "map status (locations ?mid) = [Stale, Fresh, Fresh, Fresh, Fresh]"
    unfolding before by (simp add: LOCATIONS_def)
  have st1: "map status (locations ?fin) = [Fresh, Fresh, Fresh, Fresh, Fresh]"
    "status (locations ?fin ! 0) = Fresh"
    "find (\<lambda>l. loc_id l = 1) (locations ?fin) =
       Some \<lparr>loc_id = 1, name = ''The Grand Cafe'', position = [0, 0.5, 0], status = Fresh,
              loc_type = ''cafe''\<rparr>"
    unfolding after by (simp_all add: LOCATIONS_def setFresh_def)
  from c d st0 st1 after show ?thesis
    by (simp add: ready_facts BOUNTY_REWARD_def dv del: run.simps duration.simps)
qed

section \<open>Starting a session\<close>

lemma form_rendered_iff:
  "form_rendered s \<longleftrightarrow> (\<exists>L. selectedLocation s = Some L \<and> status L = Stale) \<and> \<not> isVerifying s"
  by (cases "selectedLocation s") (simp_all add: form_rendered_def)

text \<open>
  Claim C2. In every state the application can reach with the phase Idle, the only event
  after which the phase is not Idle is a submission with an evidence image attached
  while the selected location is stale; the phase is then Scanning and the verification
  is running. After every other event the state is idle again (phase Idle, no
  verification running, no timer pending). In particular, with no location selected or a
  fresh one, the submit event leaves the state as it is: the form that carries
  \<^verbatim>\<open>handleSubmit\<close> is not rendered then.
\<close>

theorem session_start_guard:
  assumes "s = run es (mount locs bal)" and "phase s = Some Idle"
  shows "(phase (apply_event ev s) \<noteq> Some Idle \<longleftrightarrow>
            ev = Submit \<and> image' (formData s) \<noteq> None \<and>
            (\<exists>L. selectedLocation s = Some L \<and> status L = Stale)) \<and>
         (phase (apply_event ev s) \<noteq> Some Idle \<longrightarrow>
            phase (apply_event ev s) = Some Scanning \<and> isVerifying (apply_event ev s)) \<and>
         (phase (apply_event ev s) = Some Idle \<longrightarrow> idle (apply_event ev s)) \<and>
         (\<not> (\<exists>L. selectedLocation s = Some L \<and> status L = Stale) \<longrightarrow>
            apply_event Submit s = s)"
proof -
  have inv: "session_inv s" unfolding assms(1) by (rule session_inv_reachable)
  from assms(2) have "step s = 0"
    by (simp add: phase_def split: if_splits)
  with inv have idle: "idle s" by (simp add: session_inv_idle_step)
  then have nv: "\<not> isVerifying s" by (simp add: idle_def)
  let ?start = "ev = Submit \<and> image' (formData s) \<noteq> None \<and>
            (\<exists>L. selectedLocation s = Some L \<and> status L = Stale)"
  have last: "\<not> (\<exists>L. selectedLocation s = Some L \<and> status L = Stale) \<longrightarrow> apply_event Submit s = s"
    by (auto simp: form_rendered_iff)
  show ?thesis
  proof (cases ?start)
    case True
    then obtain L where L: "selectedLocation s = Some L" "status L = Stale" by blast
    from True have ev: "ev = Submit" and img: "image' (formData s) \<noteq> None" by simp_all
    have "apply_event Submit s = in_flight s L (selectedId s) 0"
      using L nv img idle by (intro submit_in_flight) (simp_all add: form_rendered_iff idle_def)
    then have "phase (apply_event ev s) = Some Scanning" "isVerifying (apply_event ev s)"
      by (simp_all only: ev phase_in_flight in_flight_fields) simp
    with True last show ?thesis by simp
  next
    case False
    from idle_step [OF idle, of ev] False
    have "idle (apply_event ev s)" by blast
    then have "phase (apply_event ev s) = Some Idle" by (rule phase_idle)
    with False last \<open>idle (apply_event ev s)\<close> show ?thesis by simp
  qed
qed

theorem session_start_guard_witness:
  "phase ready = Some Idle \<and>
   phase (apply_event Submit ready) = Some Scanning \<and>
   isVerifying (apply_event Submit ready) \<and>
   phase (apply_event (Click 2) ready) = Some Idle \<and>
   phase (apply_event Submit (apply_event (Click 2) ready)) = Some Idle \<and>
   apply_event Submit (apply_event (Click 2) ready) = apply_event (Click 2) ready"
proof -
  have r: "ready = run [Click 1, FileChange [File ''photo.jpg'']] (mount LOCATIONS INITIAL_BALANCE)"
    by (simp only: ready_def init_def)
  have r2: "apply_event (Click 2) ready =
      run [Click 1, FileChange [File ''photo.jpg''], Click 2] (mount LOCATIONS INITIAL_BALANCE)"
    by (simp only: ready_def init_def run.simps)
  have p: "phase ready = Some Idle"
    by (simp add: ready_state phase_def init_simps)
  have c2: "apply_event (Click 2) ready = ready\<lparr>selectedId := Some 2\<rparr>"
    by (simp add: beacon_rendered_def ready_facts LOCATIONS_def setSelectedId_def)
  have p2: "phase (apply_event (Click 2) ready) = Some Idle"
    unfolding c2 by (simp add: ready_state phase_def init_simps)
  have sel2: "selectedLocation (apply_event (Click 2) ready) = Some (LOCATIONS ! Suc 0)"
    "status (LOCATIONS ! Suc 0) = Fresh"
    unfolding c2 by (simp_all add: selectedLocation_def ready_facts LOCATIONS_def)
  from session_start_guard [OF r p, of Submit] session_start_guard [OF r p, of "Click 2"]
    session_start_guard [OF r2 p2, of Submit]
  show ?thesis
    by (simp add: ready_facts sel2 p p2 del: apply_event.simps)
qed

section \<open>The registry and the wallet over the lifetime\<close>

lemma evolves_refl: "evolves l l"
  by (simp add: evolves_def)

lemma evolves_trans: "evolves a b \<Longrightarrow> evolves b c \<Longrightarrow> evolves a c"
  by (auto simp: evolves_def)

lemma evolves_fields:
  assumes "evolves l l'"
  shows "loc_id l' = loc_id l" "name l' = name l" "position l' = position l"
    "loc_type l' = loc_type l" "status l = Fresh \<Longrightarrow> status l' = Fresh"
  using assms by (auto simp: evolves_def)

lemma registry_refl: "list_all2 evolves locs locs"
  by (simp add: list_all2_refl evolves_refl)

lemma registry_setFresh: "list_all2 evolves locs (setFresh i locs)"
  by (induction locs) (simp_all add: setFresh_def evolves_def)

lemma registry_trans:
  "list_all2 evolves xs ys \<Longrightarrow> list_all2 evolves ys zs \<Longrightarrow> list_all2 evolves xs zs"
  by (rule list_all2_trans [of evolves evolves evolves]) (auto intro: evolves_trans)

lemma registry_step:
  assumes "session_inv s"
  shows "list_all2 evolves (locations s) (locations (apply_event ev s))"
  using session_inv_step [OF assms, of ev]
  by (auto simp: registry_refl registry_setFresh)

lemma registry_run:
  "session_inv s \<Longrightarrow> list_all2 evolves (locations s) (locations (run es s))"
proof (induction es arbitrary: s)
  case Nil
  show ?case by (simp add: registry_refl)
next
  case (Cons ev es)
  from Cons.prems have "session_inv (apply_event ev s)"
    by (simp add: session_inv_step)
  from Cons.IH [OF this] registry_step [OF Cons.prems, of ev] show ?case
    by (auto intro: registry_trans)
qed

lemma registry_maps:
  assumes "list_all2 evolves xs ys"
  shows "map loc_id ys = map loc_id xs" "map name ys = map name xs"
    "map position ys = map position xs" "map loc_type ys = map loc_type xs"
  using assms by (induction rule: list_all2_induct) (simp_all add: evolves_fields)

lemma registry_fresh_stays:
  assumes "list_all2 evolves xs ys" "k < length xs" "status (xs ! k) = Fresh"
  shows "status (ys ! k) = Fresh"
proof -
  from assms(1,2) have "evolves (xs ! k) (ys ! k)" by (rule list_all2_nthD)
  with assms(3) show ?thesis by (auto simp: evolves_def)
qed

lemma run_session:
  "run [Submit, Wait 4000] ready = completed ready (LOCATIONS ! 0) (Some 1) 4000"
proof -
  have r: "ready = run [Click 1, FileChange [File ''photo.jpg'']] (mount LOCATIONS INITIAL_BALANCE)"
    by (simp only: ready_def init_def)
  have "apply_event Submit ready = in_flight ready (LOCATIONS ! 0) (selectedId ready) 0"
    by (rule submit_starts_session(2) [OF r ready_facts(1-4)])
  moreover have "selectedId ready = Some 1" by (simp add: ready_state)
  ultimately have "run [Submit, Wait 4000] ready
      = apply_event (Wait 4000) (in_flight ready (LOCATIONS ! 0) (Some 1) 0)"
    by (simp only: run.simps)
  also have "\<dots> = completed ready (LOCATIONS ! 0) (Some 1) (0 + 4000)"
    by (rule wait_completes) simp_all
  finally show ?thesis by simp
qed

section \<open>Any state, any event\<close>

text \<open>The two facts of this section hold in every state, reachable or not, whatever
  timers are pending.\<close>

lemma reward_positive: "0 < BOUNTY_REWARD"
  by (simp add: BOUNTY_REWARD_def)

lemma fire_effect:
  "(locations (fire tm s) = locations s \<and> balance (fire tm s) = balance s) \<or>
   (\<exists>i. locations (fire tm s) = setFresh i (locations s) \<and>
        balance (fire tm s) = balance s + BOUNTY_REWARD)"
  by (cases "(cb tm, s)" rule: run_callback.cases) (auto simp: fire_def handleVerify_def)

lemma advance_effect:
  "list_all2 evolves (locations s) (locations (advance t s)) \<and> balance s \<le> balance (advance t s)"
proof (induction t s rule: advance.induct)
  case (1 t s)
  show ?case
  proof (cases "next_timer (timers s)")
    case None
    then show ?thesis by (simp add: advance.simps registry_refl)
  next
    case (Some tm)
    show ?thesis
    proof (cases "due tm \<le> t")
      case True
      let ?s0 = "s\<lparr>timers := remove1 tm (timers s), now := max (now s) (due tm)\<rparr>"
      have unfold: "advance t s = advance t (fire tm ?s0)"
        by (subst advance.simps) (simp add: Some True)
      from fire_effect [of tm ?s0] reward_positive
      have "list_all2 evolves (locations s) (locations (fire tm ?s0))"
        and "balance s \<le> balance (fire tm ?s0)"
        by (auto simp: registry_refl registry_setFresh)
      with "1.IH" [OF Some True] show ?thesis
        unfolding unfold by (auto intro: registry_trans)
    next
      case False
      with Some show ?thesis by (simp add: advance.simps registry_refl)
    qed
  qed
qed

lemma event_effect:
  "list_all2 evolves (locations s) (locations (apply_event ev s)) \<and>
   balance s \<le> balance (apply_event ev s)"
proof (cases ev)
  case (Wait d)
  then show ?thesis by (simp add: advance_effect)
qed (simp_all add: registry_refl setSelectedId_def handleFileChange_def
      handleDescriptionChange_def handleSubmit_def split: list.splits)

text \<open>
  Claim C8. In every state the application can reach from any seed list, the location
  list is the seed list record by record, each record either as seeded or with its
  status set to fresh: the length, and the ids, names, positions and categories in
  order, are the seed's, and a record seeded fresh is fresh. In every state \<open>s\<close>
  whatsoever, an event, and \<^verbatim>\<open>handleVerify\<close> with any id, changes each record in no other
  way than that.
\<close>

theorem registry_frame:
  "list_all2 evolves locs (locations (run es (mount locs bal))) \<and>
   list_all2 evolves (locations s) (locations (apply_event ev s)) \<and>
   list_all2 evolves (locations s) (locations (handleVerify i s)) \<and>
   length (locations (run es (mount locs bal))) = length locs \<and>
   map loc_id (locations (run es (mount locs bal))) = map loc_id locs \<and>
   map name (locations (run es (mount locs bal))) = map name locs \<and>
   map position (locations (run es (mount locs bal))) = map position locs \<and>
   map loc_type (locations (run es (mount locs bal))) = map loc_type locs \<and>
   (\<forall>k<length locs. status (locs ! k) = Fresh \<longrightarrow>
      status (locations (run es (mount locs bal)) ! k) = Fresh)"
proof -
  let ?s = "run es (mount locs bal)"
  have "locations (mount locs bal) = locs" by (simp add: mount_def)
  with registry_run [OF session_inv_mount, of locs bal es]
  have seed: "list_all2 evolves locs (locations ?s)" by simp
  have ev: "list_all2 evolves (locations s) (locations (apply_event ev s))"
    by (simp add: event_effect)
  have hv: "list_all2 evolves (locations s) (locations (handleVerify i s))"
    by (simp add: handleVerify_def registry_setFresh)
  from seed have len: "length (locations ?s) = length locs"
    by (simp add: list_all2_lengthD)
  from seed ev hv len show ?thesis
    by (simp add: registry_maps [OF seed] registry_fresh_stays [OF seed])
qed

theorem registry_frame_witness:
  "locations (run [Click 1, FileChange [File ''photo.jpg''], Submit, Wait 4000] init)
     = setFresh 1 LOCATIONS \<and>
   list_all2 evolves LOCATIONS
     (locations (run [Click 1, FileChange [File ''photo.jpg''], Submit, Wait 4000] init)) \<and>
   map loc_id (locations (run [Click 1, FileChange [File ''photo.jpg''], Submit, Wait 4000] init))
     = [1, 2, 3, 4, 5] \<and>
   length (locations (run [Click 1, FileChange [File ''photo.jpg''], Submit, Wait 4000] init)) = 5 \<and>
   status (locations (run [Click 1, FileChange [File ''photo.jpg''], Submit, Wait 4000] init) ! 0)
     = Fresh \<and>
   status (locations (run [Click 1, FileChange [File ''photo.jpg''], Submit, Wait 4000] init) ! 4)
     = Fresh"
proof -
  let ?es = "[Click 1, FileChange [File ''photo.jpg''], Submit, Wait 4000]"
  have "run ?es init = run [Submit, Wait 4000] ready"
    by (simp only: ready_def run.simps)
  then have st: "run ?es init = completed ready (LOCATIONS ! 0) (Some 1) 4000"
    by (simp only: run_session)
  have locs: "locations (run ?es init) = setFresh 1 LOCATIONS"
    by (simp only: st completed_fields ready_facts)
  have "status (LOCATIONS ! 4) = Fresh" "(4::nat) < length LOCATIONS"
    by (simp_all add: LOCATIONS_def)
  with registry_frame [where locs = LOCATIONS and bal = INITIAL_BALANCE and es = ?es
      and ev = "Wait 0" and i = 1 and s = init] locs show ?thesis
    unfolding init_def [symmetric]
    by (simp add: LOCATIONS_def setFresh_def del: run.simps)
qed

lemma balance_step:
  assumes "session_inv s"
  shows "balance (apply_event ev s) = balance s \<or>
         balance (apply_event ev s) = balance s + BOUNTY_REWARD"
  using session_inv_step [OF assms, of ev] by auto

lemma balance_run: "session_inv s \<Longrightarrow> balance s \<le> balance (run es s)"
proof (induction es arbitrary: s)
  case Nil
  show ?case by simp
next
  case (Cons ev es)
  from Cons.prems have "session_inv (apply_event ev s)"
    by (simp add: session_inv_step)
  then have "balance (apply_event ev s) \<le> balance (run es (apply_event ev s))"
    by (rule Cons.IH)
  moreover from balance_step [OF Cons.prems, of ev] reward_positive
  have "balance s \<le> balance (apply_event ev s)" by auto
  ultimately show ?case by simp
qed

text \<open>
  Claim C9. In every state the application can reach, every event leaves the balance as
  it is or adds the reward to it; the reward is positive, so the balance never goes
  down: not below the starting balance, and not from one state to a later one. That no
  event lowers the balance holds in every state \<open>s\<close> whatsoever.
\<close>

theorem balance_monotone:
  "(balance (apply_event ev (run es (mount locs bal))) = balance (run es (mount locs bal)) \<or>
    balance (apply_event ev (run es (mount locs bal))) =
      balance (run es (mount locs bal)) + BOUNTY_REWARD) \<and>
   0 < BOUNTY_REWARD \<and>
   balance (run es (mount locs bal)) \<le> balance (apply_event ev (run es (mount locs bal))) \<and>
   bal \<le> balance (run es (mount locs bal)) \<and>
   balance (run es (mount locs bal)) \<le> balance (run (es @ es') (mount locs bal)) \<and>
   balance s \<le> balance (apply_event ev s)"
proof -
  let ?s = "run es (mount locs bal)"
  have inv: "session_inv ?s" by (rule session_inv_reachable)
  note one = balance_step [OF inv, of ev]
  from one reward_positive have "balance ?s \<le> balance (apply_event ev ?s)" by auto
  moreover have "bal \<le> balance ?s"
    using balance_run [OF session_inv_mount, of locs bal es] by (simp add: mount_def)
  moreover have "balance ?s \<le> balance (run (es @ es') (mount locs bal))"
    using balance_run [OF inv, of es'] by (simp add: run_append)
  ultimately show ?thesis using one reward_positive by (simp add: event_effect)
qed

theorem balance_monotone_witness:
  "balance (run [Click 1, FileChange [File ''photo.jpg''], Submit] init) = 124.5 \<and>
   balance (apply_event (Wait 4000) (run [Click 1, FileChange [File ''photo.jpg''], Submit] init))
     = 139.5 \<and>
   balance (run [Click 1, FileChange [File ''photo.jpg''], Submit] init) \<le>
     balance (apply_event (Wait 4000) (run [Click 1, FileChange [File ''photo.jpg''], Submit] init)) \<and>
   BOUNTY_REWARD = 15 \<and>
   INITIAL_BALANCE \<le> balance (run [Click 1, FileChange [File ''photo.jpg''], Submit] init)"
proof -
  let ?es = "[Click 1, FileChange [File ''photo.jpg''], Submit]"
  have r: "ready = run [Click 1, FileChange [File ''photo.jpg'']] (mount LOCATIONS INITIAL_BALANCE)"
    by (simp only: ready_def init_def)
  have "run ?es init = apply_event Submit ready"
    by (simp only: ready_def run.simps)
  then have s1: "run ?es init = in_flight ready (LOCATIONS ! 0) (selectedId ready) 0"
    by (simp only: submit_starts_session(2) [OF r ready_facts(1-4)])
  have "apply_event (Wait 4000) (run ?es init) = run [Submit, Wait 4000] ready"
    by (simp only: ready_def run.simps)
  then have s2: "apply_event (Wait 4000) (run ?es init)
      = completed ready (LOCATIONS ! 0) (Some 1) 4000"
    by (simp only: run_session)
  have b1: "balance (run ?es init) = 124.5"
    by (simp only: s1 in_flight_fields ready_facts)
  have b2: "balance (apply_event (Wait 4000) (run ?es init)) = 139.5"
    by (simp only: s2 completed_fields ready_facts) (simp add: BOUNTY_REWARD_def)
  from balance_monotone [where locs = LOCATIONS and bal = INITIAL_BALANCE and es = ?es
      and ev = "Wait 4000" and es' = "[]" and s = init] b1 b2
  show ?thesis
    unfolding init_def [symmetric]
    by (simp add: BOUNTY_REWARD_def del: run.simps apply_event.simps)
qed

section \<open>Two traces, evaluated\<close>

lemmas model_defs = init_simps LOCATIONS_def INITIAL_BALANCE_def BOUNTY_REWARD_def
  beacon_rendered_def panel_rendered_def form_rendered_def selectedLocation_def setSelectedId_def
  handleFileChange_def handleDescriptionChange_def handleSubmit_def handleVerify_def setFresh_def
  fire_def advance.simps phase_def mount_def

text \<open>The trace of the witness of C4, computed step by step from the definitions
  alone.\<close>

lemma scenario_direct:
  "balance (run [Click 1, FileChange [File ''photo.jpg''], Submit, Wait 1000, Close, Wait 2000,
      Click 2, Wait 1000] init) = 139.5"
  "map status (locations (run [Click 1, FileChange [File ''photo.jpg''], Submit, Wait 1000, Close,
      Wait 2000, Click 2, Wait 1000] init)) = [Fresh, Fresh, Fresh, Fresh, Fresh]"
  "selectedId (run [Click 1, FileChange [File ''photo.jpg''], Submit, Wait 1000, Close,
      Wait 2000, Click 2, Wait 1000] init) = Some 2"
  "step (run [Click 1, FileChange [File ''photo.jpg''], Submit, Wait 1000, Close,
      Wait 2000, Click 2] init) = 3"
  "timers (run [Click 1, FileChange [File ''photo.jpg''], Submit, Wait 1000, Close,
      Wait 2000, Click 2, Wait 1000] init) = []"
  by (simp_all add: model_defs)

text \<open>One stale location "Cafe" with id 1 and a balance of 100: select it, attach a
  photo, submit, and let four seconds pass.\<close>

lemma spec_scenario:
  "phase (run [Click 1, FileChange [File ''photo.jpg''], Submit]
      (mount [\<lparr>loc_id = 1, name = ''Cafe'', position = [0, 0, 0], status = Stale, loc_type = ''cafe''\<rparr>] 100))
     = Some Scanning"
  "balance (run [Click 1, FileChange [File ''photo.jpg''], Submit, Wait 4000]
      (mount [\<lparr>loc_id = 1, name = ''Cafe'', position = [0, 0, 0], status = Stale, loc_type = ''cafe''\<rparr>] 100))
     = 115"
  "selectedId (run [Click 1, FileChange [File ''photo.jpg''], Submit, Wait 4000]
      (mount [\<lparr>loc_id = 1, name = ''Cafe'', position = [0, 0, 0], status = Stale, loc_type = ''cafe''\<rparr>] 100))
     = Some 1"
  "uncaught (run [Click 1, FileChange [File ''photo.jpg''], Submit, Wait 4000]
      (mount [\<lparr>loc_id = 1, name = ''Cafe'', position = [0, 0, 0], status = Stale, loc_type = ''cafe''\<rparr>] 100))
     = []"
  by (simp_all add: model_defs)

end
